theory Spec2Isabelle
  imports Complex_Main
begin

section \<open>Tensor algebra at a material point\<close>

text \<open>
  The script \<^verbatim>\<open>3D4_hip.py\<close> builds its kinematic and constitutive quantities as
  symbolic expressions over the finite-element fields.  Such an expression denotes, at every
  point of the body, a number or a 3x3 tensor computed from the value of the displacement
  gradient and of the pressure at that point.  The embedding works at one (arbitrary) point:
  a displacement field enters through the value of \<^verbatim>\<open>grad(u)\<close> there, a 3x3 matrix of reals.
  Arithmetic is over the reals; rounding of machine floats is not part of the model.  An
  operation that has no finite real result (a division by zero, a non-integer power of a
  non-positive base, a square root of a negative number) yields \<open>None\<close>.
\<close>

datatype mat3 = Mat3 real real real  real real real  real real real

definition Identity3 :: mat3 where
  "Identity3 = Mat3 1 0 0  0 1 0  0 0 1"

definition zero3 :: mat3 where
  "zero3 = Mat3 0 0 0  0 0 0  0 0 0"

fun madd :: "mat3 \<Rightarrow> mat3 \<Rightarrow> mat3" where
  "madd (Mat3 a11 a12 a13 a21 a22 a23 a31 a32 a33) (Mat3 b11 b12 b13 b21 b22 b23 b31 b32 b33) =
     Mat3 (a11 + b11) (a12 + b12) (a13 + b13)
          (a21 + b21) (a22 + b22) (a23 + b23)
          (a31 + b31) (a32 + b32) (a33 + b33)"

fun msub :: "mat3 \<Rightarrow> mat3 \<Rightarrow> mat3" where
  "msub (Mat3 a11 a12 a13 a21 a22 a23 a31 a32 a33) (Mat3 b11 b12 b13 b21 b22 b23 b31 b32 b33) =
     Mat3 (a11 - b11) (a12 - b12) (a13 - b13)
          (a21 - b21) (a22 - b22) (a23 - b23)
          (a31 - b31) (a32 - b32) (a33 - b33)"

fun smul :: "real \<Rightarrow> mat3 \<Rightarrow> mat3" where
  "smul c (Mat3 a11 a12 a13 a21 a22 a23 a31 a32 a33) =
     Mat3 (c * a11) (c * a12) (c * a13)
          (c * a21) (c * a22) (c * a23)
          (c * a31) (c * a32) (c * a33)"

fun mmul :: "mat3 \<Rightarrow> mat3 \<Rightarrow> mat3" where
  "mmul (Mat3 a11 a12 a13 a21 a22 a23 a31 a32 a33) (Mat3 b11 b12 b13 b21 b22 b23 b31 b32 b33) =
     Mat3 (a11 * b11 + a12 * b21 + a13 * b31) (a11 * b12 + a12 * b22 + a13 * b32)
            (a11 * b13 + a12 * b23 + a13 * b33)
          (a21 * b11 + a22 * b21 + a23 * b31) (a21 * b12 + a22 * b22 + a23 * b32)
            (a21 * b13 + a22 * b23 + a23 * b33)
          (a31 * b11 + a32 * b21 + a33 * b31) (a31 * b12 + a32 * b22 + a33 * b32)
            (a31 * b13 + a32 * b23 + a33 * b33)"

text \<open>\<^verbatim>\<open>A.T\<close>, \<^verbatim>\<open>tr(A)\<close>, \<^verbatim>\<open>det(A)\<close>, \<^verbatim>\<open>dev(A)\<close> and \<^verbatim>\<open>inv(A)\<close> for 3x3 tensors: the
  determinant by cofactor expansion along the first row, the deviator as
  \<open>A - (tr A / 3) I\<close>, the inverse as the adjugate divided by the determinant.\<close>

fun transpose3 :: "mat3 \<Rightarrow> mat3" where
  "transpose3 (Mat3 a11 a12 a13 a21 a22 a23 a31 a32 a33) =
     Mat3 a11 a21 a31  a12 a22 a32  a13 a23 a33"

fun tr3 :: "mat3 \<Rightarrow> real" where
  "tr3 (Mat3 a11 a12 a13 a21 a22 a23 a31 a32 a33) = a11 + a22 + a33"

fun det3 :: "mat3 \<Rightarrow> real" where
  "det3 (Mat3 a11 a12 a13 a21 a22 a23 a31 a32 a33) =
     a11 * (a22 * a33 - a23 * a32) - a12 * (a21 * a33 - a23 * a31)
       + a13 * (a21 * a32 - a22 * a31)"

definition dev3 :: "mat3 \<Rightarrow> mat3" where
  "dev3 A = msub A (smul (tr3 A / 3) Identity3)"



text \<open>Scalar operations that can leave the reals.\<close>

definition ufl_div :: "real \<Rightarrow> real \<Rightarrow> real option" where
  "ufl_div a b = (if b = 0 then None else Some (a / b))"

definition ufl_pow :: "real \<Rightarrow> real \<Rightarrow> real option" where
  \<comment> \<open>\<^verbatim>\<open>a**e\<close> for a non-integer exponent \<open>e\<close>, as in \<^verbatim>\<open>J**(-2/3)\<close>\<close>
  "ufl_pow a e = (if a \<le> 0 then None else Some (a powr e))"

definition ufl_sqrt :: "real \<Rightarrow> real option" where
  "ufl_sqrt a = (if a < 0 then None else Some (sqrt a))"

section \<open>Material parameters\<close>

definition Gshear_0 :: real where "Gshear_0 = 280"
definition lambdaL :: real where "lambdaL = 512 / 100"
definition Kbulk :: real where "Kbulk = 1000 * Gshear_0"

section \<open>Kinematics and constitutive equations\<close>

text \<open>
  The unknown \<^verbatim>\<open>w\<close> of the script is a module-level object, and \<^verbatim>\<open>u, p = split(w)\<close> are its
  displacement and pressure parts.  \<open>global_fields\<close> holds what the expressions read of them
  at the point under consideration.  The module-level names \<^verbatim>\<open>F = F_calc(u)\<close> and
  \<^verbatim>\<open>J = det(F)\<close> are bound to expressions over this global \<^verbatim>\<open>u\<close>.
\<close>

record global_fields =
  grad_u :: mat3
  pres :: real

definition F_calc :: "mat3 \<Rightarrow> mat3" where
  \<comment> \<open>the argument is the value of \<^verbatim>\<open>grad(u)\<close> for the displacement \<^verbatim>\<open>u\<close> passed in\<close>
  "F_calc gu = madd Identity3 gu"

definition F_global :: "global_fields \<Rightarrow> mat3" where
  "F_global g = F_calc (grad_u g)"

definition J_global :: "global_fields \<Rightarrow> real" where
  "J_global g = det3 (F_global g)"

text \<open>\<^verbatim>\<open>lambdaBar_calc\<close> binds no local \<^verbatim>\<open>J\<close>: the name in \<^verbatim>\<open>J**(-2/3)\<close> resolves, when the
  function is called, to the module-level \<^verbatim>\<open>J\<close>.\<close>

definition lambdaBar_calc :: "global_fields \<Rightarrow> mat3 \<Rightarrow> real option" where
  "lambdaBar_calc g gu =
     (let F = F_calc gu;
          C = mmul (transpose3 F) F
      in case ufl_pow (J_global g) (- 2 / 3) of
           None \<Rightarrow> None
         | Some jp \<Rightarrow>
             (let Cdis = smul jp C;
                  I1 = tr3 Cdis
              in ufl_sqrt (I1 / 3)))"

definition zeta_calc :: "global_fields \<Rightarrow> mat3 \<Rightarrow> real option" where
  "zeta_calc g gu =
     (case lambdaBar_calc g gu of
        None \<Rightarrow> None
      | Some lambdaBar \<Rightarrow>
          (let z0 = lambdaBar / lambdaL;
               z = (if z0 > 95 / 100 then 95 / 100 else z0)
           in case ufl_div (z * (3 - z ^ 2)) (1 - z ^ 2) of
                None \<Rightarrow> None
              | Some beta \<Rightarrow>
                  (case ufl_div lambdaL (3 * lambdaBar) of
                     None \<Rightarrow> None
                   | Some q \<Rightarrow> Some (q * beta))))"

definition Gshear_AB_calc :: "global_fields \<Rightarrow> mat3 \<Rightarrow> real option" where
  "Gshear_AB_calc g gu =
     (case zeta_calc g gu of None \<Rightarrow> None | Some zeta \<Rightarrow> Some (Gshear_0 * zeta))"

definition T_calc :: "global_fields \<Rightarrow> mat3 \<Rightarrow> real \<Rightarrow> mat3 option" where
  "T_calc g gu p =
     (let Id = Identity3;
          F = F_calc gu;
          J = det3 F;
          B = mmul F (transpose3 F)
      in case ufl_pow J (- 2 / 3) of
           None \<Rightarrow> None
         | Some jp \<Rightarrow>
             (let Bdis = smul jp B
              in case Gshear_AB_calc g gu of
                   None \<Rightarrow> None
                 | Some Gshear \<Rightarrow>
                     (case ufl_div 1 J of
                        None \<Rightarrow> None
                      | Some rJ \<Rightarrow>
                          Some (msub (smul (rJ * Gshear) (dev3 Bdis)) (smul p Id)))))"


text \<open>The effective stretch in the specification's words, for comparison with
  \<open>lambdaBar_calc\<close>: \<open>C = F\<^sup>T F\<close>, \<open>Cbar = J^(-2/3) C\<close> with \<open>J = det F\<close> of the same
  argument, \<open>lambdaBar = sqrt (tr Cbar / 3)\<close>.\<close>

definition lambdaBar_spec :: "mat3 \<Rightarrow> real option" where
  "lambdaBar_spec gu =
     (let F = F_calc gu;
          C = mmul (transpose3 F) F;
          J = det3 F
      in case ufl_pow J (- 2 / 3) of
           None \<Rightarrow> None
         | Some jp \<Rightarrow> ufl_sqrt (tr3 (smul jp C) / 3))"


section \<open>Simulation time control\<close>

definition L0 :: real where "L0 = 15"
definition W0 :: real where "W0 = 10"
definition T0 :: real where "T0 = 1"

definition stretch :: real where "stretch = 3"
definition dispTot :: real where "dispTot = (stretch - 1) * L0"
definition rate :: real where "rate = 1"
definition Ttot :: real where "Ttot = (stretch - 1) / rate"
definition numSteps :: nat where "numSteps = 100"
definition dt :: real where "dt = Ttot / real numSteps"
definition totSteps :: nat where "totSteps = numSteps + 1"

text \<open>\<^verbatim>\<open>dispRamp\<close> is an expression object \<^verbatim>\<open>"dispTot*t/Ttot"\<close> whose parameters are attributes;
  the driver assigns to its attribute \<^verbatim>\<open>t\<close>.\<close>

record ramp =
  ramp_t :: real
  ramp_dispTot :: real
  ramp_Ttot :: real

definition ramp_value :: "ramp \<Rightarrow> real" where
  "ramp_value r = ramp_dispTot r * ramp_t r / ramp_Ttot r"

definition dispRamp_init :: ramp where
  "dispRamp_init = \<lparr>ramp_t = 0, ramp_dispTot = dispTot, ramp_Ttot = Ttot\<rparr>"

text \<open>Python's \<^verbatim>\<open>round(x, n)\<close>: to the nearest multiple of \<open>10^-n\<close>, ties to the even one.\<close>

definition py_round :: "real \<Rightarrow> int" where
  "py_round x =
     (let f = \<lfloor>x\<rfloor>; r = x - of_int f
      in if r < 1 / 2 then f else if r > 1 / 2 then f + 1 else if even f then f else f + 1)"

definition round_nd :: "real \<Rightarrow> nat \<Rightarrow> real" where
  "round_nd x n = of_int (py_round (x * 10 ^ n)) / 10 ^ n"

section \<open>The load-stepping driver\<close>

text \<open>
  The finite-element library is outside the script.  Two of its operations decide what the
  driver does and are parameters of the model:
  \<^item> \<^verbatim>\<open>solver.solve()\<close>: it reads the boundary conditions (of which only \<^verbatim>\<open>dispRamp\<close> varies)
    and the current \<^verbatim>\<open>w\<close>, iterates on \<^verbatim>\<open>w\<close> in place, and either raises, leaving some \<^verbatim>\<open>w\<close>
    behind (\<open>Inl\<close>), or returns \<^verbatim>\<open>(iter, converged)\<close> (\<open>Inr\<close>);
  \<^item> \<^verbatim>\<open>assemble(P11*ds(35))\<close> with \<^verbatim>\<open>P11 = project(Tmat[0,0], W)\<close>: a number computed from \<^verbatim>\<open>w\<close>.

  What the script sends outwards (result-file writes, printed lines) and its calls of the
  solver are kept, in order, in \<open>events\<close>.  Wall-clock readings are not modelled: a printed
  line that contains one keeps the rest of its content.
\<close>

type_synonym ('e, 'w) solver = "ramp \<Rightarrow> 'w \<Rightarrow> ('e \<times> 'w) + (nat \<times> bool \<times> 'w)"

datatype line =
    Text string
  | StepLine string real
  | IterLine nat
  | Blank
  | ElapsedLine

datatype 'w event =
    WriteResults real 'w
  | SolverCall ramp
  | Print line

record 'w sim =
  t_sim :: real
  ii :: nat
  dispRamp :: ramp
  w_sol :: 'w
  w_old :: 'w
  timeHist0 :: "real list"
  timeHist1 :: "real list"
  events :: "'w event list"

datatype py_error = IndexError

datatype 'w body_result = Break "'w sim" | Continue "'w sim" | Raise py_error

definition step_name :: string where
  "step_name = ''Stretch''"

definition writeResults :: "real \<Rightarrow> 'w sim \<Rightarrow> 'w sim" where
  "writeResults tm s = s\<lparr>events := events s @ [WriteResults tm (w_sol s)]\<rparr>"

definition print_line :: "line \<Rightarrow> 'w sim \<Rightarrow> 'w sim" where
  "print_line l s = s\<lparr>events := events s @ [Print l]\<rparr>"

text \<open>One pass through the body of the \<^verbatim>\<open>while\<close> loop.  A store into a history array at an
  index outside it raises \<^verbatim>\<open>IndexError\<close>, which nothing catches.\<close>

definition loop_body :: "('e, 'w) solver \<Rightarrow> ('w \<Rightarrow> real) \<Rightarrow> 'w sim \<Rightarrow> 'w body_result" where
  "loop_body solver assemble_P11 s =
     (let s1 = s\<lparr>t_sim := t_sim s + dt\<rparr>;
          s2 = s1\<lparr>ii := ii s1 + 1\<rparr>;
          s3 = s2\<lparr>dispRamp := (dispRamp s2)\<lparr>ramp_t := t_sim s2\<rparr>\<rparr>;
          s4 = s3\<lparr>events := events s3 @ [SolverCall (dispRamp s3)]\<rparr>
      in case solver (dispRamp s4) (w_sol s4) of
           Inl (e, w') \<Rightarrow> Break (s4\<lparr>w_sol := w'\<rparr>)
         | Inr (iter, converged, w') \<Rightarrow>
             (let s5 = s4\<lparr>w_sol := w'\<rparr>;
                  s6 = writeResults (t_sim s5) s5;
                  s7 = s6\<lparr>w_old := w_sol s6\<rparr>
              in if ii s7 < length (timeHist0 s7) then
                   (let s8 = s7\<lparr>timeHist0 :=
                                 (timeHist0 s7)[ii s7 := (L0 + dispTot * t_sim s7 / Ttot) / L0]\<rparr>
                    in if ii s8 < length (timeHist1 s8) then
                         (let s9 = s8\<lparr>timeHist1 :=
                                       (timeHist1 s8)[ii s8 := 2 * assemble_P11 (w_sol s8) / (W0 * T0)]\<rparr>
                          in if ii s9 mod 1 = 0 then
                               Continue (print_line Blank
                                 (print_line (IterLine iter)
                                   (print_line (StepLine step_name (round_nd (t_sim s9) 4)) s9)))
                             else Continue s9)
                       else Raise IndexError)
                 else Raise IndexError))"

datatype loop_exit = Completed | Aborted

text \<open>The \<^verbatim>\<open>while\<close> loop.  It is left either because its condition fails (\<open>Completed\<close>) or by
  the \<^verbatim>\<open>break\<close> of the \<^verbatim>\<open>except\<close> clause (\<open>Aborted\<close>).\<close>

function stepping_loop ::
  "('e, 'w) solver \<Rightarrow> ('w \<Rightarrow> real) \<Rightarrow> 'w sim \<Rightarrow> py_error + (loop_exit \<times> 'w sim)" where
  "stepping_loop solver assemble_P11 s =
     (if round_nd (t_sim s + dt) 9 \<le> Ttot then
        (case loop_body solver assemble_P11 s of
           Break s' \<Rightarrow> Inr (Aborted, s')
         | Continue s' \<Rightarrow> stepping_loop solver assemble_P11 s'
         | Raise e \<Rightarrow> Inl e)
      else Inr (Completed, s))"
  by pat_completeness auto

termination stepping_loop
proof (relation "measure (\<lambda>(solver, assemble_P11, s). nat \<lfloor>(3 - t_sim s) * 50\<rfloor>)", goal_cases)
  case 1
  show ?case by simp
next
  case (2 solver assemble_P11 s s')
  have "t_sim s' = t_sim s + dt"
    using 2(2)
    by (auto simp: loop_body_def Let_def writeResults_def print_line_def
        split: sum.splits prod.splits if_splits)
  then have t': "t_sim s' = t_sim s + 1 / 50"
    by (simp add: dt_def Ttot_def stretch_def rate_def numSteps_def)
  have "(t_sim s + dt) * 10 ^ 9 - 1 < of_int (py_round ((t_sim s + dt) * 10 ^ 9))"
    unfolding py_round_def Let_def by (auto; linarith)
  moreover from 2(1) have "of_int (py_round ((t_sim s + dt) * 10 ^ 9)) \<le> (2::real) * 10 ^ 9"
    by (simp add: round_nd_def Ttot_def stretch_def rate_def field_simps)
  ultimately have "t_sim s + dt < 3" by simp
  then have lt: "t_sim s + 1 / 50 < 3"
    by (simp add: dt_def Ttot_def stretch_def rate_def numSteps_def)
  have "(3 - t_sim s') * 50 = (3 - t_sim s) * 50 - 1" using t' by simp
  then have fl: "\<lfloor>(3 - t_sim s') * 50\<rfloor> = \<lfloor>(3 - t_sim s) * 50\<rfloor> - 1"
    by (simp only: floor_diff_one)
  have "1 \<le> \<lfloor>(3 - t_sim s) * 50\<rfloor>" using lt by (simp add: le_floor_iff)
  with fl show ?case by simp
qed

declare stepping_loop.simps [simp del]

text \<open>The script from its first statement to the plot: the initial values, the first
  \<^verbatim>\<open>writeResults(t=0.0)\<close>, the start banner, the history arrays, the loop, and the lines
  printed after the loop.\<close>

definition sim_init :: "('w::zero) sim" where
  "sim_init =
     \<lparr>t_sim = 0, ii = 0, dispRamp = dispRamp_init, w_sol = 0, w_old = 0,
      timeHist0 = (replicate totSteps 0)[0 := 1], timeHist1 = replicate totSteps 0,
      events = []\<rparr>"

definition start_banner :: "line list" where
  "start_banner =
     [Text ''------------------------------------'',
      Text ''Simulation Start'',
      Text ''------------------------------------'']"

definition end_report :: "line list" where
  "end_report =
     [Text ''-----------------------------------------'',
      Text ''End computation'',
      Text ''------------------------------------------'',
      ElapsedLine,
      Text ''------------------------------------------'']"

definition sim_start :: "('w::zero) sim" where
  "sim_start = fold print_line start_banner (writeResults 0 sim_init)"

definition end_analysis :: "'w sim \<Rightarrow> 'w sim" where
  \<comment> \<open>the statements after the loop, up to the elapsed-time report\<close>
  "end_analysis s = fold print_line end_report s"

definition run ::
  "('e, 'w::zero) solver \<Rightarrow> ('w \<Rightarrow> real) \<Rightarrow> py_error + (loop_exit \<times> 'w sim)" where
  "run solver assemble_P11 =
     (case stepping_loop solver assemble_P11 sim_start of
        Inl e \<Rightarrow> Inl e
      | Inr (ex, s) \<Rightarrow> Inr (ex, end_analysis s))"

definition plot_data :: "'w sim \<Rightarrow> real list \<times> real list" where
  \<comment> \<open>\<^verbatim>\<open>plt.plot(timeHist0, timeHist1/1.E3, ...)\<close>\<close>
  "plot_data s = (timeHist0 s, map (\<lambda>y. y / 1000) (timeHist1 s))"

text \<open>Readings of the event list.\<close>

fun solver_calls :: "'w event list \<Rightarrow> ramp list" where
  "solver_calls [] = []"
| "solver_calls (SolverCall r # evs) = r # solver_calls evs"
| "solver_calls (_ # evs) = solver_calls evs"

fun written :: "'w event list \<Rightarrow> (real \<times> 'w) list" where
  "written [] = []"
| "written (WriteResults tm v # evs) = (tm, v) # written evs"
| "written (_ # evs) = written evs"

fun printed :: "'w event list \<Rightarrow> line list" where
  "printed [] = []"
| "printed (Print l # evs) = l # printed evs"
| "printed (_ # evs) = printed evs"

text \<open>What a run has to show when it is over: how the loop was left, the step counter,
  and the lines printed after the loop.\<close>

definition run_exit :: "py_error + (loop_exit \<times> 'w sim) \<Rightarrow> loop_exit option" where
  "run_exit r = (case r of Inl e \<Rightarrow> None | Inr (ex, s) \<Rightarrow> Some ex)"

definition run_steps :: "py_error + (loop_exit \<times> 'w sim) \<Rightarrow> nat option" where
  "run_steps r = (case r of Inl e \<Rightarrow> None | Inr (ex, s) \<Rightarrow> Some (ii s))"

definition completion_report :: "'w sim \<Rightarrow> line list" where
  \<comment> \<open>the lines that \<open>end_analysis\<close> adds to those printed before\<close>
  "completion_report s = drop (length (printed (events s))) (printed (events (end_analysis s)))"

definition run_report :: "py_error + (loop_exit \<times> 'w sim) \<Rightarrow> line list option" where
  \<comment> \<open>applied to the outcome of the loop\<close>
  "run_report r = (case r of Inl e \<Rightarrow> None | Inr (ex, s) \<Rightarrow> Some (completion_report s))"

text \<open>The value stored in \<^verbatim>\<open>timeHist0\<close> by step \<open>k\<close>, whose time is \<open>k * dt\<close>.\<close>

definition stretch_at :: "nat \<Rightarrow> real" where
  "stretch_at k = (L0 + dispTot * (real k * dt) / Ttot) / L0"

definition ramp_at :: "nat \<Rightarrow> ramp" where
  "ramp_at k = dispRamp_init\<lparr>ramp_t := real k * dt\<rparr>"

text \<open>A solver behaviour for concrete runs: the field is a counter of successful solves; a
  solve succeeds (in 3 iterations) while the ramp time is at most \<open>tmax\<close> and raises after.\<close>

definition test_solver :: "real \<Rightarrow> (unit, nat) solver" where
  "test_solver tmax r v = (if ramp_t r \<le> tmax then Inr (3, True, Suc v) else Inl ((), v + 7))"

definition test_assemble :: "nat \<Rightarrow> real" where
  "test_assemble v = 5 * real v"


section \<open>Invariant of the stepping loop\<close>

text \<open>\<open>recorded n s\<close>: what \<open>n\<close> converged steps have left in the state.  \<open>driver_inv n s\<close>:
  the state between two passes of the loop, after \<open>n\<close> converged steps.
  \<open>aborted_at solver n s\<close>: the state after \<open>n\<close> converged steps and one more solve that
  raised.\<close>

definition recorded :: "nat \<Rightarrow> 'w sim \<Rightarrow> bool" where
  "recorded n s \<longleftrightarrow>
     timeHist0 s = map stretch_at [0..<Suc n] @ replicate (numSteps - n) 0
   \<and> length (timeHist1 s) = totSteps
   \<and> drop (Suc n) (timeHist1 s) = replicate (numSteps - n) 0
   \<and> map fst (written (events s)) = map (\<lambda>k. real k * dt) [0..<Suc n]
   \<and> w_old s = snd (last (written (events s)))"

definition driver_inv :: "nat \<Rightarrow> 'w sim \<Rightarrow> bool" where
  "driver_inv n s \<longleftrightarrow>
     recorded n s \<and> n \<le> numSteps \<and> ii s = n \<and> t_sim s = real n * dt
   \<and> dispRamp s = ramp_at n \<and> w_sol s = w_old s
   \<and> solver_calls (events s) = map ramp_at [1..<Suc n]"

definition aborted_at :: "('e, 'w) solver \<Rightarrow> nat \<Rightarrow> 'w sim \<Rightarrow> bool" where
  "aborted_at solver n s \<longleftrightarrow>
     recorded n s \<and> n < numSteps \<and> ii s = Suc n \<and> t_sim s = real (Suc n) * dt
   \<and> dispRamp s = ramp_at (Suc n)
   \<and> solver_calls (events s) = map ramp_at [1..<Suc (Suc n)]
   \<and> last (events s) = SolverCall (ramp_at (Suc n))
   \<and> isl (solver (ramp_at (Suc n)) (w_old s))"

section \<open>Properties of the kinematics and the material model\<close>

subsection \<open>Tensor identities\<close>












subsection \<open>Effective stretch\<close>

lemma eight_powr: "(8::real) powr (- (2 / 3)) = 1 / 4"
proof -
  have "(8::real) = 2 powr 3" by simp
  then have "(8::real) powr (- (2 / 3)) = (2 powr 3) powr (- (2 / 3))" by simp
  also have "\<dots> = 2 powr (- 2)" by (simp only: powr_powr) simp
  also have "\<dots> = 1 / 4" by (simp add: powr_minus_divide)
  finally show ?thesis .
qed

lemma lambdaBar_calc_global_arg:
  "lambdaBar_calc g (grad_u g) = lambdaBar_spec (grad_u g)"
  by (simp add: lambdaBar_calc_def lambdaBar_spec_def J_global_def F_global_def Let_def
      split: option.splits)


lemma lambdaBar_ref: "lambdaBar_calc \<lparr>grad_u = zero3, pres = p\<rparr> zero3 = Some 1"
  by (simp add: lambdaBar_calc_def F_calc_def J_global_def F_global_def Identity3_def zero3_def
      ufl_pow_def ufl_sqrt_def)

text \<open>
  C1.  The claim: for every displacement \<open>u\<close>, \<^verbatim>\<open>lambdaBar_calc(u)\<close> is
  \<open>sqrt (tr Cbar / 3)\<close> with \<open>Cbar = J^(-2/3) F\<^sup>T F\<close> and \<open>J = det F\<close> taken from the same
  \<open>u\<close>, with no dependence on a global field.  The function reads the module-level \<^verbatim>\<open>J\<close>,
  the determinant for the global displacement.  With the global displacement at rest
  (\<open>J = 1\<close>) and an argument whose gradient is the identity (\<open>F = 2 I\<close>, \<open>det F = 8\<close>), the
  function returns 2, where the formula of the claim gives 1.  (Lemma
  \<open>lambdaBar_calc_global_arg\<close>: the two agree when the argument is the global displacement
  itself, which is how the script calls the function.)
\<close>

theorem lambdaBar_calc_reads_global_J:
  "lambdaBar_calc \<lparr>grad_u = zero3, pres = 0\<rparr> Identity3 = Some 2
   \<and> lambdaBar_spec Identity3 = Some 1"
proof -
  have a: "lambdaBar_calc \<lparr>grad_u = zero3, pres = 0\<rparr> Identity3 = Some 2"
    by (simp add: lambdaBar_calc_def F_calc_def J_global_def F_global_def Identity3_def zero3_def
      ufl_pow_def ufl_sqrt_def)
  have b: "lambdaBar_spec Identity3 = Some 1"
    by (simp add: lambdaBar_spec_def F_calc_def Identity3_def ufl_pow_def ufl_sqrt_def eight_powr)
  show ?thesis using a b by simp
qed

subsection \<open>Shear modulus\<close>




lemma Gshear_ref:
  "Gshear_AB_calc \<lparr>grad_u = zero3, pres = p\<rparr> zero3 = Some (Gshear_0 * (48527 / 47277))"
  by (simp add: Gshear_AB_calc_def zeta_calc_def lambdaBar_ref Let_def lambdaL_def ufl_div_def
      power2_eq_square)









subsection \<open>Stresses\<close>

text \<open>
  C7.  In the reference configuration (the displacement of the script, global and argument
  of every call, is zero, so its gradient is the zero matrix; any pressure \<open>p\<close>): \<open>F = I\<close>,
  \<open>det F = 1\<close>, the effective stretch is 1, the Cauchy stress is \<open>- p I\<close>, and its
  deviatoric part is zero.
\<close>

theorem reference_configuration_stress_free:
  "F_calc zero3 = Identity3
   \<and> det3 (F_calc zero3) = 1
   \<and> lambdaBar_calc \<lparr>grad_u = zero3, pres = p\<rparr> zero3 = Some 1
   \<and> T_calc \<lparr>grad_u = zero3, pres = p\<rparr> zero3 p = Some (smul (- p) Identity3)
   \<and> map_option dev3 (T_calc \<lparr>grad_u = zero3, pres = p\<rparr> zero3 p) = Some zero3"
proof -
  note G = Gshear_ref[of p]
  have F: "F_calc zero3 = Identity3" by (simp add: F_calc_def Identity3_def zero3_def)
  have d: "det3 Identity3 = 1" by (simp add: Identity3_def)
  have T: "T_calc \<lparr>grad_u = zero3, pres = p\<rparr> zero3 p = Some (smul (- p) Identity3)"
    by (simp add: T_calc_def F d G ufl_pow_def ufl_div_def Let_def)
       (simp add: Identity3_def dev3_def)
  have dv: "dev3 (smul (- p) Identity3) = zero3" by (simp add: dev3_def Identity3_def zero3_def)
  show ?thesis using F d T dv lambdaBar_ref by simp
qed






section \<open>Properties of the load-stepping driver\<close>

subsection \<open>Time control and the loop condition\<close>

lemmas time_consts = dt_def Ttot_def stretch_def rate_def numSteps_def totSteps_def

lemma dt_val: "dt = 1 / 50" by (simp add: time_consts)
lemma Ttot_val: "Ttot = 2" by (simp add: time_consts)

lemma py_round_of_int: "py_round (of_int m) = m"
  by (simp add: py_round_def)

lemma round_nd_step: "round_nd (real k * dt + dt) 9 = real (Suc k) / 50"
proof -
  have "(real k * dt + dt) * 10 ^ 9 = of_int (int (Suc k) * 20000000)"
    by (simp add: dt_val field_simps)
  then have "py_round ((real k * dt + dt) * 10 ^ 9) = int (Suc k) * 20000000"
    by (simp only: py_round_of_int)
  then show ?thesis by (simp add: round_nd_def)
qed

lemma guard_iff:
  assumes "t_sim s = real n * dt"
  shows "round_nd (t_sim s + dt) 9 \<le> Ttot \<longleftrightarrow> n < numSteps"
proof -
  have "round_nd (t_sim s + dt) 9 = real (Suc n) / 50"
    unfolding assms by (rule round_nd_step)
  then show ?thesis by (simp add: Ttot_val numSteps_def) linarith
qed

lemma solver_calls_append: "solver_calls (xs @ ys) = solver_calls xs @ solver_calls ys"
  by (induction xs rule: solver_calls.induct) simp_all

lemma written_append: "written (xs @ ys) = written xs @ written ys"
  by (induction xs rule: written.induct) simp_all

lemma printed_append: "printed (xs @ ys) = printed xs @ printed ys"
  by (induction xs rule: printed.induct) simp_all

lemma replicate_step:
  assumes "n < N"
  shows "replicate (N - n) (0::real) = 0 # replicate (N - Suc n) 0"
proof -
  have "N - n = Suc (N - Suc n)" using assms by simp
  then show ?thesis by (simp only: replicate_Suc)
qed

lemma hist0_update:
  assumes "n < N" and "length xs = Suc n"
  shows "(xs @ replicate (N - n) (0::real))[Suc n := v] = (xs @ [v]) @ replicate (N - Suc n) 0"
  using assms by (simp add: replicate_step[OF assms(1)] list_update_append)

lemma hist1_update:
  assumes "n < N" and "drop (Suc n) ys = replicate (N - n) (0::real)"
  shows "drop (Suc (Suc n)) (ys[Suc n := v]) = replicate (N - Suc n) 0"
proof -
  have "drop (Suc (Suc n)) (ys[Suc n := v]) = drop (Suc (Suc n)) ys"
    by simp
  also have "\<dots> = drop 1 (drop (Suc n) ys)" by simp
  also have "\<dots> = replicate (N - Suc n) 0"
    unfolding assms(2) replicate_step[OF assms(1)] by simp
  finally show ?thesis .
qed

lemma stretch_at_time: "(L0 + dispTot * (real n * dt + dt) / Ttot) / L0 = stretch_at (Suc n)"
  by (simp add: stretch_at_def algebra_simps)

lemma loop_body_raise:
  assumes "solver ((dispRamp s)\<lparr>ramp_t := t_sim s + dt\<rparr>) (w_sol s) = Inl (e, w')"
  shows "loop_body solver asm s =
     Break (s\<lparr>t_sim := t_sim s + dt, ii := Suc (ii s),
              dispRamp := (dispRamp s)\<lparr>ramp_t := t_sim s + dt\<rparr>, w_sol := w',
              events := events s @ [SolverCall ((dispRamp s)\<lparr>ramp_t := t_sim s + dt\<rparr>)]\<rparr>)"
  using assms by (simp add: loop_body_def Let_def)

lemma loop_body_return:
  assumes "solver ((dispRamp s)\<lparr>ramp_t := t_sim s + dt\<rparr>) (w_sol s) = Inr (iter, c, w')"
    and "Suc (ii s) < length (timeHist0 s)" and "Suc (ii s) < length (timeHist1 s)"
  shows "loop_body solver asm s =
     Continue (s\<lparr>t_sim := t_sim s + dt, ii := Suc (ii s),
                 dispRamp := (dispRamp s)\<lparr>ramp_t := t_sim s + dt\<rparr>, w_sol := w', w_old := w',
                 timeHist0 := (timeHist0 s)[Suc (ii s) := (L0 + dispTot * (t_sim s + dt) / Ttot) / L0],
                 timeHist1 := (timeHist1 s)[Suc (ii s) := 2 * asm w' / (W0 * T0)],
                 events := events s @
                   [SolverCall ((dispRamp s)\<lparr>ramp_t := t_sim s + dt\<rparr>),
                    WriteResults (t_sim s + dt) w',
                    Print (StepLine step_name (round_nd (t_sim s + dt) 4)),
                    Print (IterLine iter), Print Blank]\<rparr>)"
  using assms by (simp add: loop_body_def Let_def writeResults_def print_line_def)

lemma ramp_at_Suc: "(ramp_at n)\<lparr>ramp_t := real n * dt + dt\<rparr> = ramp_at (Suc n)"
  by (simp add: ramp_at_def algebra_simps)

lemma upt_Suc_snoc: "[Suc 0..<Suc (Suc n)] = [Suc 0..<Suc n] @ [Suc n]"
  by simp

lemma ramp_at_update: "(ramp_at n)\<lparr>ramp_t := real m * dt\<rparr> = ramp_at m"
  by (simp add: ramp_at_def)

lemma body_break_inv:
  assumes inv: "driver_inv n s" and due: "n < numSteps"
    and sol: "solver (ramp_at (Suc n)) (w_sol s) = Inl (e, w')"
  shows "\<exists>s'. loop_body solver asm s = Break s' \<and> aborted_at solver n s'
              \<and> timeHist0 s' = timeHist0 s \<and> timeHist1 s' = timeHist1 s \<and> w_old s' = w_old s
              \<and> events s' = events s @ [SolverCall (ramp_at (Suc n))]"
proof -
  from inv have f: "recorded n s" "ii s = n" "t_sim s = real n * dt" "dispRamp s = ramp_at n"
      "w_sol s = w_old s" "solver_calls (events s) = map ramp_at [1..<Suc n]"
    by (simp_all add: driver_inv_def)
  have R: "(dispRamp s)\<lparr>ramp_t := t_sim s + dt\<rparr> = ramp_at (Suc n)"
    by (simp only: f ramp_at_Suc)
  let ?s' = "s\<lparr>t_sim := t_sim s + dt, ii := Suc (ii s),
              dispRamp := (dispRamp s)\<lparr>ramp_t := t_sim s + dt\<rparr>, w_sol := w',
              events := events s @ [SolverCall ((dispRamp s)\<lparr>ramp_t := t_sim s + dt\<rparr>)]\<rparr>"
  have b: "loop_body solver asm s = Break ?s'"
    by (rule loop_body_raise) (simp only: R sol)
  have rec: "recorded n ?s'"
    using f(1) by (simp add: recorded_def written_append)
  have isl: "isl (solver (ramp_at (Suc n)) (w_old s))"
    using sol f(5) by simp
  have tn: "t_sim s + dt = real (Suc n) * dt" by (simp add: f(3) algebra_simps)
  have ab: "aborted_at solver n ?s'"
    unfolding aborted_at_def
    using rec due isl
    by (simp add: tn f(2,4,6) ramp_at_update solver_calls_append upt_Suc_snoc
        del: upt_Suc of_nat_Suc)
  show ?thesis using b ab by (simp add: R)
qed

lemma body_continue_inv:
  assumes inv: "driver_inv n s" and due: "n < numSteps"
    and sol: "solver (ramp_at (Suc n)) (w_sol s) = Inr (iter, c, w')"
  shows "\<exists>s'. loop_body solver asm s = Continue s' \<and> driver_inv (Suc n) s'
              \<and> w_old s' = w' \<and> (\<exists>evs. events s' = events s @ evs)"
proof -
  from inv have f: "recorded n s" "ii s = n" "t_sim s = real n * dt" "dispRamp s = ramp_at n"
      "w_sol s = w_old s" "solver_calls (events s) = map ramp_at [1..<Suc n]"
    by (simp_all add: driver_inv_def)
  from f(1) have r: "timeHist0 s = map stretch_at [0..<Suc n] @ replicate (numSteps - n) 0"
      "length (timeHist1 s) = totSteps"
      "drop (Suc n) (timeHist1 s) = replicate (numSteps - n) 0"
      "map fst (written (events s)) = map (\<lambda>k. real k * dt) [0..<Suc n]"
    by (simp_all add: recorded_def)
  have R: "(dispRamp s)\<lparr>ramp_t := t_sim s + dt\<rparr> = ramp_at (Suc n)"
    by (simp only: f ramp_at_Suc)
  have l0: "Suc (ii s) < length (timeHist0 s)" using due by (simp add: r(1) f(2))
  have l1: "Suc (ii s) < length (timeHist1 s)" using due by (simp add: r(2) f(2) totSteps_def)
  let ?s' = "s\<lparr>t_sim := t_sim s + dt, ii := Suc (ii s),
                 dispRamp := (dispRamp s)\<lparr>ramp_t := t_sim s + dt\<rparr>, w_sol := w', w_old := w',
                 timeHist0 := (timeHist0 s)[Suc (ii s) := (L0 + dispTot * (t_sim s + dt) / Ttot) / L0],
                 timeHist1 := (timeHist1 s)[Suc (ii s) := 2 * asm w' / (W0 * T0)],
                 events := events s @
                   [SolverCall ((dispRamp s)\<lparr>ramp_t := t_sim s + dt\<rparr>),
                    WriteResults (t_sim s + dt) w',
                    Print (StepLine step_name (round_nd (t_sim s + dt) 4)),
                    Print (IterLine iter), Print Blank]\<rparr>"
  have b: "loop_body solver asm s = Continue ?s'"
    by (rule loop_body_return[OF _ l0 l1]) (simp only: R sol)
  have h0: "(timeHist0 s)[Suc (ii s) := (L0 + dispTot * (t_sim s + dt) / Ttot) / L0]
      = map stretch_at [0..<Suc (Suc n)] @ replicate (numSteps - Suc n) 0"
  proof -
    have "(map stretch_at [0..<Suc n] @ replicate (numSteps - n) 0)[Suc n := stretch_at (Suc n)]
        = (map stretch_at [0..<Suc n] @ [stretch_at (Suc n)]) @ replicate (numSteps - Suc n) 0"
      by (rule hist0_update[OF due]) simp
    then show ?thesis by (simp add: r(1) f(2,3) stretch_at_time)
  qed
  have h1: "drop (Suc (Suc n)) ((timeHist1 s)[Suc (ii s) := 2 * asm w' / (W0 * T0)])
      = replicate (numSteps - Suc n) 0"
    unfolding f(2) by (rule hist1_update[OF due r(3)])
  have tn: "t_sim s + dt = real (Suc n) * dt" by (simp add: f(3) algebra_simps)
  have up: "[0..<Suc (Suc n)] = [0..<Suc n] @ [Suc n]" by simp
  have rec: "recorded (Suc n) ?s'"
    unfolding recorded_def using h0 h1
    by (simp add: written_append r(2,4) tn up del: upt_Suc of_nat_Suc)
  have di: "driver_inv (Suc n) ?s'"
    unfolding driver_inv_def using rec due
    by (simp add: tn f(2,4,6) ramp_at_update solver_calls_append upt_Suc_snoc
        del: upt_Suc of_nat_Suc)
  show ?thesis using b di by auto
qed

subsection \<open>The loop and the whole run\<close>

lemma stepping_loop_done:
  assumes "driver_inv n s" and "\<not> n < numSteps"
  shows "stepping_loop solver asm s = Inr (Completed, s)"
proof -
  from assms(1) have "t_sim s = real n * dt" by (simp add: driver_inv_def)
  from guard_iff[OF this] have "\<not> round_nd (t_sim s + dt) 9 \<le> Ttot" using assms(2) by simp
  then show ?thesis by (subst stepping_loop.simps) simp
qed

lemma stepping_loop_unfold:
  assumes "driver_inv n s" and "n < numSteps"
  shows "stepping_loop solver asm s =
     (case loop_body solver asm s of
        Break s' \<Rightarrow> Inr (Aborted, s')
      | Continue s' \<Rightarrow> stepping_loop solver asm s'
      | Raise e \<Rightarrow> Inl e)"
proof -
  from assms(1) have "t_sim s = real n * dt" by (simp add: driver_inv_def)
  from guard_iff[OF this] have "round_nd (t_sim s + dt) 9 \<le> Ttot" using assms(2) by simp
  then show ?thesis by (subst stepping_loop.simps) simp
qed

lemma stepping_loop_post:
  assumes "driver_inv n s"
  shows "\<exists>ex s'. stepping_loop solver asm s = Inr (ex, s')
           \<and> (ex = Completed \<and> driver_inv numSteps s'
                \<or> ex = Aborted \<and> (\<exists>m. n \<le> m \<and> aborted_at solver m s'))
           \<and> (\<exists>evs. events s' = events s @ evs)"
  using assms
proof (induction solver asm s arbitrary: n rule: stepping_loop.induct)
  case (1 solver asm s)
  note inv = \<open>driver_inv n s\<close>
  show ?case
  proof (cases "n < numSteps")
    case False
    with inv have "n = numSteps" by (simp add: driver_inv_def)
    with inv have "driver_inv numSteps s" by simp
    moreover have "stepping_loop solver asm s = Inr (Completed, s)"
      by (rule stepping_loop_done[OF inv False])
    moreover have "events s = events s @ []" by simp
    ultimately show ?thesis by blast
  next
    case due: True
    from inv have t: "t_sim s = real n * dt" by (simp add: driver_inv_def)
    have g: "round_nd (t_sim s + dt) 9 \<le> Ttot" using due guard_iff[OF t] by simp
    show ?thesis
    proof (cases "solver (ramp_at (Suc n)) (w_sol s)")
      case (Inl a)
      obtain e w' where a: "a = (e, w')" by (cases a)
      have sol: "solver (ramp_at (Suc n)) (w_sol s) = Inl (e, w')" using Inl a by simp
      from body_break_inv[where solver = solver and asm = asm, OF inv due sol]
      obtain s' where s': "loop_body solver asm s = Break s'" "aborted_at solver n s'"
          "events s' = events s @ [SolverCall (ramp_at (Suc n))]"
        by blast
      have "stepping_loop solver asm s = Inr (Aborted, s')"
        by (simp add: stepping_loop_unfold[OF inv due] s'(1))
      with s'(2,3) show ?thesis by blast
    next
      case (Inr b)
      obtain iter c w' where b: "b = (iter, c, w')" by (cases b)
      have sol: "solver (ramp_at (Suc n)) (w_sol s) = Inr (iter, c, w')" using Inr b by simp
      from body_continue_inv[where solver = solver and asm = asm, OF inv due sol]
      obtain s' evs where s': "loop_body solver asm s = Continue s'" "driver_inv (Suc n) s'"
          "events s' = events s @ evs"
        by blast
      from "1.IH"[OF g s'(1) s'(2)]
      obtain ex s'' evs' where r: "stepping_loop solver asm s' = Inr (ex, s'')"
          "ex = Completed \<and> driver_inv numSteps s''
            \<or> ex = Aborted \<and> (\<exists>m. Suc n \<le> m \<and> aborted_at solver m s'')"
          "events s'' = events s' @ evs'"
        by blast
      have "stepping_loop solver asm s = Inr (ex, s'')"
        by (simp add: stepping_loop_unfold[OF inv due] s'(1) r(1))
      moreover have "ex = Completed \<and> driver_inv numSteps s''
            \<or> ex = Aborted \<and> (\<exists>m. n \<le> m \<and> aborted_at solver m s'')"
        using r(2) by (meson Suc_leD)
      moreover have "events s'' = events s @ (evs @ evs')" by (simp add: r(3) s'(3))
      ultimately show ?thesis by blast
    qed
  qed
qed

lemma stretch_at_0: "stretch_at 0 = 1"
  by (simp add: stretch_at_def L0_def)

lemma sim_start_inv: "driver_inv 0 (sim_start :: ('w::zero) sim)"
  by (simp add: driver_inv_def recorded_def sim_start_def sim_init_def start_banner_def
      writeResults_def print_line_def stretch_at_0 ramp_at_def dispRamp_init_def
      totSteps_def)

lemma events_end_analysis: "events (end_analysis s) = events s @ map Print end_report"
  by (simp add: end_analysis_def end_report_def print_line_def)

lemma end_analysis_fields:
  "t_sim (end_analysis s) = t_sim s" "ii (end_analysis s) = ii s"
  "dispRamp (end_analysis s) = dispRamp s" "w_sol (end_analysis s) = w_sol s"
  "w_old (end_analysis s) = w_old s" "timeHist0 (end_analysis s) = timeHist0 s"
  "timeHist1 (end_analysis s) = timeHist1 s"
  by (simp_all add: end_analysis_def end_report_def print_line_def)

lemma written_prints: "written (map Print ls) = []"
  by (induction ls) simp_all

lemma solver_calls_prints: "solver_calls (map Print ls) = []"
  by (induction ls) simp_all

lemma printed_prints: "printed (map Print ls) = ls"
  by (induction ls) simp_all

lemma written_end_analysis: "written (events (end_analysis s)) = written (events s)"
  by (simp add: events_end_analysis written_append written_prints)

lemma solver_calls_end_analysis: "solver_calls (events (end_analysis s)) = solver_calls (events s)"
  by (simp add: events_end_analysis solver_calls_append solver_calls_prints)

lemma printed_end_analysis: "printed (events (end_analysis s)) = printed (events s) @ end_report"
  by (simp add: events_end_analysis printed_append printed_prints)

lemma completion_report_eq: "completion_report s = end_report"
  by (simp add: completion_report_def printed_end_analysis)

lemma run_post:
  "\<exists>ex s. stepping_loop solver asm sim_start = Inr (ex, s)
         \<and> run solver asm = Inr (ex, end_analysis s)
         \<and> (ex = Completed \<and> driver_inv numSteps s
              \<or> ex = Aborted \<and> (\<exists>m. aborted_at solver m s))"
proof -
  from stepping_loop_post[OF sim_start_inv, of solver asm]
  obtain ex s where r: "stepping_loop solver asm sim_start = Inr (ex, s)"
      "ex = Completed \<and> driver_inv numSteps s \<or> ex = Aborted \<and> (\<exists>m. 0 \<le> m \<and> aborted_at solver m s)"
    by blast
  have "run solver asm = Inr (ex, end_analysis s)" by (simp add: run_def r(1))
  with r show ?thesis by blast
qed


lemma recorded_written_length: "recorded n s \<Longrightarrow> length (written (events s)) = Suc n"
proof -
  assume "recorded n s"
  then have "map fst (written (events s)) = map (\<lambda>k. real k * dt) [0..<Suc n]"
    by (simp add: recorded_def)
  then have "length (map fst (written (events s))) = length (map (\<lambda>k. real k * dt) [0..<Suc n])"
    by (simp only:)
  then show ?thesis by simp
qed

lemma aborted_summary:
  assumes "aborted_at solver m s"
  shows "ii s = Suc m" and "ii s \<le> numSteps"
    and "length (solver_calls (events s)) = ii s"
    and "length (written (events s)) = ii s"
    and "length (timeHist0 s) = numSteps + 1" and "length (timeHist1 s) = numSteps + 1"
    and "take (ii s) (timeHist0 s) = map stretch_at [0..<ii s]"
    and "drop (ii s) (timeHist0 s) = replicate (numSteps + 1 - ii s) 0"
    and "drop (ii s) (timeHist1 s) = replicate (numSteps + 1 - ii s) 0"
    and "last (events s) = SolverCall (ramp_at (ii s))"
    and "w_old s = snd (last (written (events s)))"
    and "solver_calls (events s) = map ramp_at [1..<Suc (ii s)]"
    and "t_sim s = real (ii s) * dt" and "dispRamp s = ramp_at (ii s)"
proof -
  from assms have a: "recorded m s" "m < numSteps" "ii s = Suc m" "t_sim s = real (Suc m) * dt"
      "dispRamp s = ramp_at (Suc m)" "solver_calls (events s) = map ramp_at [1..<Suc (Suc m)]"
      "last (events s) = SolverCall (ramp_at (Suc m))"
    by (simp_all add: aborted_at_def)
  from a(1) have r: "timeHist0 s = map stretch_at [0..<Suc m] @ replicate (numSteps - m) 0"
      "length (timeHist1 s) = totSteps" "drop (Suc m) (timeHist1 s) = replicate (numSteps - m) 0"
      "w_old s = snd (last (written (events s)))"
    by (simp_all add: recorded_def)
  show "ii s = Suc m" by (rule a(3))
  show "ii s \<le> numSteps" using a(2,3) by simp
  show "length (solver_calls (events s)) = ii s" by (simp add: a(6) a(3))
  show "length (written (events s)) = ii s" by (simp add: recorded_written_length[OF a(1)] a(3))
  show "length (timeHist0 s) = numSteps + 1" using a(2) by (simp add: r(1))
  show "length (timeHist1 s) = numSteps + 1" by (simp add: r(2) totSteps_def)
  show "take (ii s) (timeHist0 s) = map stretch_at [0..<ii s]" by (simp add: r(1) a(3))
  show "drop (ii s) (timeHist0 s) = replicate (numSteps + 1 - ii s) 0" by (simp add: r(1) a(3))
  show "drop (ii s) (timeHist1 s) = replicate (numSteps + 1 - ii s) 0" by (simp add: r(3) a(3))
  show "last (events s) = SolverCall (ramp_at (ii s))" by (simp add: a(7) a(3))
  show "w_old s = snd (last (written (events s)))" by (rule r(4))
  show "solver_calls (events s) = map ramp_at [1..<Suc (ii s)]" by (simp only: a(6) a(3))
  show "t_sim s = real (ii s) * dt" by (simp only: a(4) a(3))
  show "dispRamp s = ramp_at (ii s)" by (simp only: a(5) a(3))
qed

lemma completed_summary:
  assumes "driver_inv numSteps s"
  shows "ii s = numSteps"
    and "length (solver_calls (events s)) = ii s"
    and "length (written (events s)) = Suc (ii s)"
    and "timeHist0 s = map stretch_at [0..<Suc numSteps]"
    and "w_old s = snd (last (written (events s)))"
    and "solver_calls (events s) = map ramp_at [1..<Suc (ii s)]"
    and "t_sim s = real (ii s) * dt" and "dispRamp s = ramp_at (ii s)"
proof -
  from assms have a: "recorded numSteps s" "ii s = numSteps" "t_sim s = real numSteps * dt"
      "dispRamp s = ramp_at numSteps" "solver_calls (events s) = map ramp_at [1..<Suc numSteps]"
    by (simp_all add: driver_inv_def)
  from a(1) have r: "timeHist0 s = map stretch_at [0..<Suc numSteps] @ replicate (numSteps - numSteps) 0"
      "w_old s = snd (last (written (events s)))"
    by (simp_all add: recorded_def)
  show "ii s = numSteps" by (rule a(2))
  show "length (solver_calls (events s)) = ii s" by (simp add: a(5) a(2))
  show "length (written (events s)) = Suc (ii s)" by (simp add: recorded_written_length[OF a(1)] a(2))
  show "timeHist0 s = map stretch_at [0..<Suc numSteps]" using r(1) by simp
  show "w_old s = snd (last (written (events s)))" by (rule r(2))
  show "solver_calls (events s) = map ramp_at [1..<Suc (ii s)]" by (simp only: a(5) a(2))
  show "t_sim s = real (ii s) * dt" by (simp only: a(3) a(2))
  show "dispRamp s = ramp_at (ii s)" by (simp only: a(4) a(2))
qed

lemma stretch_at_val: "stretch_at k = 1 + real k / 50"
  by (simp add: stretch_at_def L0_def dispTot_def dt_val Ttot_val stretch_def field_simps)

lemma stretch_hist_sorted: "sorted_wrt (<) (map stretch_at [0..<n])"
proof -
  have "sorted_wrt (\<lambda>i j. stretch_at i < stretch_at j) [0..<n]"
    by (rule sorted_wrt_mono_rel[OF _ sorted_wrt_upt]) (simp add: stretch_at_val)
  then show ?thesis by (simp only: sorted_wrt_map)
qed

subsection \<open>Runs with the test solver\<close>

lemma ramp_t_ramp_at: "ramp_t (ramp_at k) = real k / 50"
  by (simp add: ramp_at_def dt_val)

lemma test_solver_returns:
  "real k / 50 \<le> tmax \<Longrightarrow> test_solver tmax (ramp_at k) v = Inr (3, True, Suc v)"
  by (simp add: test_solver_def ramp_t_ramp_at)

lemma test_solver_raises:
  "tmax < real k / 50 \<Longrightarrow> test_solver tmax (ramp_at k) v = Inl ((), v + 7)"
  by (simp add: test_solver_def ramp_t_ramp_at)

lemma test_solver_loop_aborts:
  assumes "driver_inv n s" and "n \<le> k" and "k < numSteps"
  shows "\<exists>s'. stepping_loop (test_solver (real k / 50)) asm s = Inr (Aborted, s')
              \<and> aborted_at (test_solver (real k / 50)) k s'"
  using assms
proof (induction "k - n" arbitrary: n s)
  case 0
  then have nk: "n = k" by simp
  have sol: "test_solver (real k / 50) (ramp_at (Suc n)) (w_sol s) = Inl ((), w_sol s + 7)"
    by (rule test_solver_raises) (simp add: nk)
  from "0.prems"(3) nk have due: "n < numSteps" by simp
  from body_break_inv[where solver = "test_solver (real k / 50)" and asm = asm,
      OF "0.prems"(1) due sol]
  obtain s' where s': "loop_body (test_solver (real k / 50)) asm s = Break s'"
      "aborted_at (test_solver (real k / 50)) n s'"
    by blast
  have "stepping_loop (test_solver (real k / 50)) asm s = Inr (Aborted, s')"
    by (simp add: stepping_loop_unfold[OF "0.prems"(1) due] s'(1))
  with s'(2) nk show ?case by blast
next
  case (Suc d)
  then have lt: "n < k" by simp
  with Suc.prems(3) have due: "n < numSteps" by simp
  have sol: "test_solver (real k / 50) (ramp_at (Suc n)) (w_sol s) = Inr (3, True, Suc (w_sol s))"
    using lt by (intro test_solver_returns) (simp add: divide_right_mono)
  from body_continue_inv[where solver = "test_solver (real k / 50)" and asm = asm,
      OF Suc.prems(1) due sol]
  obtain s' where s': "loop_body (test_solver (real k / 50)) asm s = Continue s'"
      "driver_inv (Suc n) s'"
    by blast
  have d: "d = k - Suc n" using Suc.hyps(2) by simp
  from Suc.hyps(1)[OF d s'(2) _ Suc.prems(3)] lt
  obtain s'' where s'': "stepping_loop (test_solver (real k / 50)) asm s' = Inr (Aborted, s'')"
      "aborted_at (test_solver (real k / 50)) k s''"
    by auto
  have "stepping_loop (test_solver (real k / 50)) asm s = Inr (Aborted, s'')"
    by (simp add: stepping_loop_unfold[OF Suc.prems(1) due] s'(1) s''(1))
  with s''(2) show ?case by blast
qed

lemma test_run_aborts:
  assumes "k < numSteps"
  shows "\<exists>s. stepping_loop (test_solver (real k / 50)) asm sim_start = Inr (Aborted, s)
           \<and> run (test_solver (real k / 50)) asm = Inr (Aborted, end_analysis s)
           \<and> aborted_at (test_solver (real k / 50)) k s"
proof -
  from test_solver_loop_aborts[OF sim_start_inv _ assms, of asm]
  obtain s where s: "stepping_loop (test_solver (real k / 50)) asm sim_start = Inr (Aborted, s)"
      "aborted_at (test_solver (real k / 50)) k s"
    by auto
  then have "run (test_solver (real k / 50)) asm = Inr (Aborted, end_analysis s)"
    by (simp add: run_def)
  with s show ?thesis by blast
qed

lemma test_run_completes:
  "\<exists>s. stepping_loop (test_solver 3) asm sim_start = Inr (Completed, s)
      \<and> run (test_solver 3) asm = Inr (Completed, end_analysis s)
      \<and> driver_inv numSteps s"
proof -
  from run_post[of "test_solver 3" asm]
  obtain ex s where r: "stepping_loop (test_solver 3) asm sim_start = Inr (ex, s)"
      "run (test_solver 3) asm = Inr (ex, end_analysis s)"
      "ex = Completed \<and> driver_inv numSteps s \<or> ex = Aborted \<and> (\<exists>m. aborted_at (test_solver 3) m s)"
    by blast
  have "\<not> aborted_at (test_solver 3) m s" for m
  proof
    assume a: "aborted_at (test_solver 3) m s"
    then have "m < numSteps" and i: "isl (test_solver 3 (ramp_at (Suc m)) (w_old s))"
      by (simp_all add: aborted_at_def)
    then have "real (Suc m) / 50 \<le> 3" by (simp add: numSteps_def)
    from test_solver_returns[OF this] i show False by simp
  qed
  with r show ?thesis by blast
qed




subsection \<open>Abort on a failed solve\<close>




subsection \<open>The previous-step field\<close>

lemma loop_body_w_old:
  "(loop_body solver asm s = Break s' \<longrightarrow>
        w_old s' = w_old s
      \<and> (\<exists>e. solver ((dispRamp s)\<lparr>ramp_t := t_sim s + dt\<rparr>) (w_sol s) = Inl (e, w_sol s')))
   \<and> (loop_body solver asm s = Continue s' \<longrightarrow>
        w_old s' = w_sol s'
      \<and> (\<exists>iter c. solver ((dispRamp s)\<lparr>ramp_t := t_sim s + dt\<rparr>) (w_sol s)
                     = Inr (iter, c, w_sol s')))"
  by (auto simp: loop_body_def Let_def writeResults_def print_line_def
      split: sum.splits prod.splits if_splits)

lemma run_w_old:
  "\<exists>ex sf. run solver asm = Inr (ex, sf)
      \<and> w_old sf = snd (last (written (events sf)))
      \<and> length (written (events sf)) = (if ex = Aborted then ii sf else Suc (ii sf))"
proof -
  from run_post[of solver asm]
  obtain ex sl where r: "run solver asm = Inr (ex, end_analysis sl)"
      "ex = Completed \<and> driver_inv numSteps sl \<or> ex = Aborted \<and> (\<exists>m. aborted_at solver m sl)"
    by blast
  have "w_old sl = snd (last (written (events sl)))"
    using r(2) completed_summary(5) aborted_summary(11) by blast
  moreover have "length (written (events sl)) = (if ex = Aborted then ii sl else Suc (ii sl))"
    using r(2) completed_summary(3) aborted_summary(4) by auto
  ultimately show ?thesis
    using r(1) by (simp add: written_end_analysis end_analysis_fields)
qed

text \<open>
  C4.  In one pass of the loop body \<^verbatim>\<open>w_old\<close> receives the field that the solve returned, and
  only when it returned; when the solve raises, \<^verbatim>\<open>w_old\<close> is what it was.  At the end of
  every run \<^verbatim>\<open>w_old\<close> is the field of the last snapshot written by \<^verbatim>\<open>writeResults\<close>: that of
  the last converged step, or the initial zero field when no step converged.  The snapshots
  are the initial one and one per converged step.
\<close>

theorem w_old_last_converged:
  "(loop_body solver asm s = Break s' \<longrightarrow>
        w_old s' = w_old s
      \<and> (\<exists>e. solver ((dispRamp s)\<lparr>ramp_t := t_sim s + dt\<rparr>) (w_sol s) = Inl (e, w_sol s')))
   \<and> (loop_body solver asm s = Continue s' \<longrightarrow>
        w_old s' = w_sol s'
      \<and> (\<exists>iter c. solver ((dispRamp s)\<lparr>ramp_t := t_sim s + dt\<rparr>) (w_sol s)
                     = Inr (iter, c, w_sol s')))
   \<and> (\<exists>ex sf. run solver asm = Inr (ex, sf)
         \<and> w_old sf = snd (last (written (events sf)))
         \<and> length (written (events sf)) = (if ex = Aborted then ii sf else Suc (ii sf)))"
  using loop_body_w_old[of solver asm s s'] run_w_old[of solver asm] by blast

theorem w_old_last_converged_witness:
  "(\<exists>sb. loop_body (test_solver 0) test_assemble sim_start = Break sb
        \<and> w_old sb = 0 \<and> w_sol sb = 7)
   \<and> (\<exists>sc. loop_body (test_solver 3) test_assemble sim_start = Continue sc
        \<and> w_old sc = Suc 0 \<and> w_sol sc = Suc 0)
   \<and> (\<exists>sf. run (test_solver (2 / 50)) test_assemble = Inr (Aborted, sf)
        \<and> ii sf = 3 \<and> length (written (events sf)) = 3
        \<and> w_old sf = snd (last (written (events sf))))"
proof -
  let ?s = "sim_start :: nat sim"
  have f: "w_old ?s = 0" "w_sol ?s = 0" "(dispRamp ?s)\<lparr>ramp_t := t_sim ?s + dt\<rparr> = ramp_at (Suc 0)"
    by (simp_all add: sim_start_def sim_init_def writeResults_def print_line_def
        start_banner_def ramp_at_def dispRamp_init_def)
  have due: "0 < numSteps" by (simp add: numSteps_def)
  have solb: "test_solver 0 (ramp_at (Suc 0)) (w_sol ?s) = Inl ((), 7)"
    using test_solver_raises[of 0 "Suc 0" 0] by (simp add: f)
  have solc: "test_solver 3 (ramp_at (Suc 0)) (w_sol ?s) = Inr (3, True, Suc 0)"
    using test_solver_returns[of "Suc 0" 3 0] by (simp add: f)
  from body_break_inv[where solver = "test_solver 0" and asm = test_assemble,
      OF sim_start_inv due solb]
  obtain sb where sb: "loop_body (test_solver 0) test_assemble ?s = Break sb" by blast
  from body_continue_inv[where solver = "test_solver 3" and asm = test_assemble,
      OF sim_start_inv due solc]
  obtain sc where sc: "loop_body (test_solver 3) test_assemble ?s = Continue sc" by blast
  from w_old_last_converged[of "test_solver 0" test_assemble ?s sb] sb
  have b: "w_old sb = 0 \<and> w_sol sb = 7"
    using test_solver_raises[of 0 "Suc 0" 0] by (auto simp: f)
  from w_old_last_converged[of "test_solver 3" test_assemble ?s sc] sc
  have c: "w_old sc = Suc 0 \<and> w_sol sc = Suc 0"
    using test_solver_returns[of "Suc 0" 3 0] by (auto simp: f)
  from test_run_aborts[of 2 test_assemble]
  obtain sl where sl: "run (test_solver (2 / 50)) test_assemble = Inr (Aborted, end_analysis sl)"
      "aborted_at (test_solver (2 / 50)) 2 sl"
    by (auto simp: numSteps_def)
  from w_old_last_converged[of "test_solver (2 / 50)" test_assemble ?s sb] sl(1)
  have r: "w_old (end_analysis sl) = snd (last (written (events (end_analysis sl))))"
      "length (written (events (end_analysis sl))) = ii (end_analysis sl)"
    by auto
  have "ii (end_analysis sl) = 3"
    using aborted_summary(1)[OF sl(2)] by (simp add: end_analysis_fields)
  with r sl(1) have "\<exists>sf. run (test_solver (2 / 50)) test_assemble = Inr (Aborted, sf)
        \<and> ii sf = 3 \<and> length (written (events sf)) = 3
        \<and> w_old sf = snd (last (written (events sf)))"
    by auto
  with sb sc b c show ?thesis by blast
qed

subsection \<open>What is reported at the end\<close>

text \<open>
  C5.  The claim: on completion the driver reports whether it finished at the target time or
  aborted early, and the count of load steps advanced.  The statements after the loop print
  a fixed banner and the elapsed time.  A run whose first solve raises (aborted, counter 1)
  and a run in which every solve succeeds (completed, counter 100) print the same lines on
  completion.
\<close>

theorem completion_report_same_when_aborted:
  "run_exit (run (test_solver 0) test_assemble) = Some Aborted
   \<and> run_steps (run (test_solver 0) test_assemble) = Some 1
   \<and> run_exit (run (test_solver 3) test_assemble) = Some Completed
   \<and> run_steps (run (test_solver 3) test_assemble) = Some 100
   \<and> run_report (stepping_loop (test_solver 0) test_assemble sim_start)
       = run_report (stepping_loop (test_solver 3) test_assemble sim_start)"
proof -
  from test_run_aborts[of 0 test_assemble]
  obtain sa where sa: "stepping_loop (test_solver 0) test_assemble sim_start = Inr (Aborted, sa)"
      "run (test_solver 0) test_assemble = Inr (Aborted, end_analysis sa)"
      "aborted_at (test_solver 0) 0 sa"
    by (auto simp: numSteps_def)
  from test_run_completes[of test_assemble]
  obtain sb where sb: "stepping_loop (test_solver 3) test_assemble sim_start = Inr (Completed, sb)"
      "run (test_solver 3) test_assemble = Inr (Completed, end_analysis sb)"
      "driver_inv numSteps sb"
    by blast
  have "ii sa = 1" using aborted_summary(1)[OF sa(3)] by simp
  moreover have "ii sb = 100" using completed_summary(1)[OF sb(3)] by (simp add: numSteps_def)
  ultimately show ?thesis
    by (simp add: sa(1,2) sb(1,2) run_exit_def run_steps_def run_report_def
        end_analysis_fields completion_report_eq)
qed

text \<open>
  C5, as amended.  For every solver behaviour the run returns, and what it prints on
  completion is the fixed list \<open>end_report\<close> (banner and elapsed-time line), appended to the
  lines printed before; it does not depend on how the loop was left nor on the step counter.
\<close>

theorem completion_report_fixed:
  "\<exists>ex sl. stepping_loop solver asm sim_start = Inr (ex, sl)
      \<and> run solver asm = Inr (ex, end_analysis sl)
      \<and> printed (events (end_analysis sl)) = printed (events sl) @ end_report
      \<and> run_report (stepping_loop solver asm sim_start) = Some end_report"
proof -
  from run_post[of solver asm]
  obtain ex sl where r: "stepping_loop solver asm sim_start = Inr (ex, sl)"
      "run solver asm = Inr (ex, end_analysis sl)"
    by blast
  then show ?thesis
    by (simp add: printed_end_analysis run_report_def completion_report_eq)
qed

subsection \<open>The stretch history\<close>

text \<open>
  C6.  With \<^verbatim>\<open>stretch = 3.0\<close> and \<^verbatim>\<open>numSteps = 100\<close>, a run that leaves the loop by its
  condition (no solve raised) ends with \<^verbatim>\<open>ii = 100\<close> and a \<^verbatim>\<open>timeHist0\<close> of 101 entries: entry
  0 is 1, entry 100 is 3, entry \<open>i\<close> (for \<open>1 \<le> i \<le> 100\<close>) is
  \<open>(L0 + dispTot * t / Ttot) / L0\<close> at the time \<open>t = i * dt\<close> of step \<open>i\<close>, and the series is
  strictly increasing.  (Real arithmetic; the rounding of the accumulated float \<^verbatim>\<open>t\<close> is not
  modelled.)
\<close>

theorem stretch_history_of_completed_run:
  assumes "run solver asm = Inr (Completed, sf)"
  shows "stretch = 3 \<and> numSteps = 100 \<and> ii sf = 100
       \<and> length (timeHist0 sf) = 101
       \<and> timeHist0 sf ! 0 = 1 \<and> timeHist0 sf ! 100 = 3
       \<and> (\<forall>i\<in>{1..100}. timeHist0 sf ! i = (L0 + dispTot * (real i * dt) / Ttot) / L0)
       \<and> sorted_wrt (<) (timeHist0 sf)"
proof -
  from run_post[of solver asm] assms
  obtain sl where r: "sf = end_analysis sl" "driver_inv numSteps sl"
    by auto
  have h: "timeHist0 sf = map stretch_at [0..<101]"
    using completed_summary(4)[OF r(2)] by (simp add: r(1) end_analysis_fields numSteps_def)
  have i: "ii sf = 100"
    using completed_summary(1)[OF r(2)] by (simp add: r(1) end_analysis_fields numSteps_def)
  have n: "timeHist0 sf ! k = stretch_at k" if "k < 101" for k
    unfolding h using that by (simp only: nth_map_upt) simp
  have a: "\<forall>i\<in>{1..100}. timeHist0 sf ! i = (L0 + dispTot * (real i * dt) / Ttot) / L0"
  proof
    fix i :: nat assume "i \<in> {1..100}"
    then have "i < 101" by simp
    from n[OF this] show "timeHist0 sf ! i = (L0 + dispTot * (real i * dt) / Ttot) / L0"
      by (simp only: stretch_at_def)
  qed
  have s: "sorted_wrt (<) (timeHist0 sf)" unfolding h by (rule stretch_hist_sorted)
  have "timeHist0 sf ! 0 = 1" using n[of 0] by (simp add: stretch_at_val)
  moreover have "timeHist0 sf ! 100 = 3" using n[of 100] by (simp add: stretch_at_val)
  moreover have "length (timeHist0 sf) = 101" by (simp add: h)
  ultimately show ?thesis using i a s by (simp add: stretch_def numSteps_def)
qed

theorem stretch_history_of_completed_run_witness:
  "\<exists>sf. run (test_solver 3) test_assemble = Inr (Completed, sf)
      \<and> length (timeHist0 sf) = 101
      \<and> timeHist0 sf ! 0 = 1 \<and> timeHist0 sf ! 50 = 2 \<and> timeHist0 sf ! 100 = 3
      \<and> sorted_wrt (<) (timeHist0 sf)"
proof -
  from test_run_completes[of test_assemble]
  obtain sl where r: "run (test_solver 3) test_assemble = Inr (Completed, end_analysis sl)"
    by blast
  note th = stretch_history_of_completed_run[OF r]
  from th have "timeHist0 (end_analysis sl) ! 50 = (L0 + dispTot * (real 50 * dt) / Ttot) / L0"
    by simp
  then have "timeHist0 (end_analysis sl) ! 50 = 2"
    by (simp add: L0_def dispTot_def dt_val Ttot_val stretch_def)
  with r th show ?thesis by blast
qed

subsection \<open>The displacement ramp\<close>

lemma loop_body_ramp:
  "(loop_body solver asm s = Break s' \<or> loop_body solver asm s = Continue s' \<longrightarrow>
        t_sim s' = t_sim s + dt
      \<and> dispRamp s' = (dispRamp s)\<lparr>ramp_t := t_sim s + dt\<rparr>
      \<and> solver_calls (events s')
          = solver_calls (events s) @ [(dispRamp s)\<lparr>ramp_t := t_sim s + dt\<rparr>])
   \<and> ((\<exists>sb. loop_body solver asm s = Break sb)
        \<longleftrightarrow> isl (solver ((dispRamp s)\<lparr>ramp_t := t_sim s + dt\<rparr>) (w_sol s)))"
  by (auto simp: loop_body_def Let_def writeResults_def print_line_def solver_calls_append
      split: sum.splits prod.splits if_splits)

lemma run_ramp:
  "\<exists>ex sf. run solver asm = Inr (ex, sf)
      \<and> 1 \<le> ii sf
      \<and> t_sim sf = real (ii sf) * dt
      \<and> dispRamp sf = dispRamp_init\<lparr>ramp_t := t_sim sf\<rparr>
      \<and> solver_calls (events sf)
          = map (\<lambda>k. dispRamp_init\<lparr>ramp_t := real k * dt\<rparr>) [1..<Suc (ii sf)]
      \<and> map ramp_value (solver_calls (events sf))
          = map (\<lambda>k. dispTot * (real k * dt) / Ttot) [1..<Suc (ii sf)]
      \<and> (ex = Completed \<longrightarrow> ii sf = numSteps \<and> ramp_value (dispRamp sf) = dispTot)"
proof -
  from run_post[of solver asm]
  obtain ex sl where r: "run solver asm = Inr (ex, end_analysis sl)"
      "ex = Completed \<and> driver_inv numSteps sl \<or> ex = Aborted \<and> (\<exists>m. aborted_at solver m sl)"
    by blast
  have t: "t_sim sl = real (ii sl) * dt"
    using r(2) completed_summary(7) aborted_summary(13) by blast
  have d: "dispRamp sl = ramp_at (ii sl)"
    using r(2) completed_summary(8) aborted_summary(14) by blast
  have c: "solver_calls (events sl) = map ramp_at [1..<Suc (ii sl)]"
    using r(2) completed_summary(6) aborted_summary(12) by blast
  have p: "1 \<le> ii sl"
    using r(2) completed_summary(1) aborted_summary(1) by (fastforce simp: numSteps_def)
  have m: "map ramp_at xs = map (\<lambda>k. dispRamp_init\<lparr>ramp_t := real k * dt\<rparr>) xs" for xs
    by (simp add: ramp_at_def)
  have v: "map ramp_value (map ramp_at xs) = map (\<lambda>k. dispTot * (real k * dt) / Ttot) xs" for xs
    by (simp add: ramp_at_def ramp_value_def dispRamp_init_def)
  have f: "ex = Completed \<longrightarrow> ii sl = numSteps \<and> ramp_value (dispRamp sl) = dispTot"
  proof
    assume "ex = Completed"
    with r(2) have "driver_inv numSteps sl" by auto
    from completed_summary(1,8)[OF this]
    show "ii sl = numSteps \<and> ramp_value (dispRamp sl) = dispTot"
      by (simp add: ramp_at_def ramp_value_def dispRamp_init_def dt_val Ttot_val numSteps_def)
  qed
  have "run solver asm = Inr (ex, end_analysis sl)
      \<and> 1 \<le> ii (end_analysis sl)
      \<and> t_sim (end_analysis sl) = real (ii (end_analysis sl)) * dt
      \<and> dispRamp (end_analysis sl) = dispRamp_init\<lparr>ramp_t := t_sim (end_analysis sl)\<rparr>
      \<and> solver_calls (events (end_analysis sl))
          = map (\<lambda>k. dispRamp_init\<lparr>ramp_t := real k * dt\<rparr>) [1..<Suc (ii (end_analysis sl))]
      \<and> map ramp_value (solver_calls (events (end_analysis sl)))
          = map (\<lambda>k. dispTot * (real k * dt) / Ttot) [1..<Suc (ii (end_analysis sl))]
      \<and> (ex = Completed \<longrightarrow> ii (end_analysis sl) = numSteps
            \<and> ramp_value (dispRamp (end_analysis sl)) = dispTot)"
    unfolding end_analysis_fields solver_calls_end_analysis c v
    using r(1) p t d f by (auto simp add: m ramp_at_def simp del: upt_Suc)
  then show ?thesis by blast
qed

text \<open>
  C9.  The value of the ramp is \<open>dispTot * t / Ttot\<close> for its time attribute \<open>t\<close>: 0 at
  \<open>t = 0\<close>, \<open>dispTot\<close> at \<open>t = Ttot\<close>, linear in \<open>t\<close>.  Every pass of the loop body that does not
  end in an uncaught error leaves the ramp with its time set to the new time \<open>t + dt\<close>, and
  has called the solver once, with the ramp so updated: the pass breaks exactly when the
  solver raises on that ramp.  Every run makes at least one pass; its \<open>k\<close>-th solver call finds
  the ramp with time \<open>k * dt\<close> and value \<open>dispTot * k * dt / Ttot\<close>; at the end the ramp's time
  is the driver's time, and after a completed run its value is \<open>dispTot\<close>.
\<close>

theorem ramp_linear_and_reassigned:
  "ramp_value (dispRamp_init\<lparr>ramp_t := tm\<rparr>) = dispTot * tm / Ttot
   \<and> ramp_value (dispRamp_init\<lparr>ramp_t := 0\<rparr>) = 0
   \<and> ramp_value (dispRamp_init\<lparr>ramp_t := Ttot\<rparr>) = dispTot
   \<and> ramp_value (dispRamp_init\<lparr>ramp_t := a * t1 + b * t2\<rparr>)
       = a * ramp_value (dispRamp_init\<lparr>ramp_t := t1\<rparr>) + b * ramp_value (dispRamp_init\<lparr>ramp_t := t2\<rparr>)
   \<and> (loop_body solver asm s = Break s' \<or> loop_body solver asm s = Continue s' \<longrightarrow>
          t_sim s' = t_sim s + dt
        \<and> dispRamp s' = (dispRamp s)\<lparr>ramp_t := t_sim s + dt\<rparr>
        \<and> solver_calls (events s')
            = solver_calls (events s) @ [(dispRamp s)\<lparr>ramp_t := t_sim s + dt\<rparr>])
   \<and> ((\<exists>sb. loop_body solver asm s = Break sb)
        \<longleftrightarrow> isl (solver ((dispRamp s)\<lparr>ramp_t := t_sim s + dt\<rparr>) (w_sol s)))
   \<and> (\<exists>ex sf. run solver asm = Inr (ex, sf)
         \<and> 1 \<le> ii sf
         \<and> t_sim sf = real (ii sf) * dt
         \<and> dispRamp sf = dispRamp_init\<lparr>ramp_t := t_sim sf\<rparr>
         \<and> solver_calls (events sf)
             = map (\<lambda>k. dispRamp_init\<lparr>ramp_t := real k * dt\<rparr>) [1..<Suc (ii sf)]
         \<and> map ramp_value (solver_calls (events sf))
             = map (\<lambda>k. dispTot * (real k * dt) / Ttot) [1..<Suc (ii sf)]
         \<and> (ex = Completed \<longrightarrow> ii sf = numSteps \<and> ramp_value (dispRamp sf) = dispTot))"
proof -
  have v: "ramp_value (dispRamp_init\<lparr>ramp_t := x\<rparr>) = dispTot * x / Ttot" for x
    by (simp add: ramp_value_def dispRamp_init_def)
  have l: "dispTot * (a * t1 + b * t2) / Ttot = a * (dispTot * t1 / Ttot) + b * (dispTot * t2 / Ttot)"
    by (simp add: Ttot_val algebra_simps)
  have v0: "ramp_value (dispRamp_init\<lparr>ramp_t := 0\<rparr>) = 0" by (simp add: v)
  have vT: "ramp_value (dispRamp_init\<lparr>ramp_t := Ttot\<rparr>) = dispTot" by (simp add: v Ttot_val)
  have vl: "ramp_value (dispRamp_init\<lparr>ramp_t := a * t1 + b * t2\<rparr>)
       = a * ramp_value (dispRamp_init\<lparr>ramp_t := t1\<rparr>) + b * ramp_value (dispRamp_init\<lparr>ramp_t := t2\<rparr>)"
    by (simp only: v l)
  show ?thesis
    using v[of tm] v0 vT vl loop_body_ramp[of solver asm s s'] run_ramp[of solver asm]
    by blast
qed

theorem ramp_linear_and_reassigned_witness:
  "(\<exists>s'. loop_body (test_solver (1 / 25)) test_assemble sim_start = Continue s'
        \<and> t_sim s' = 1 / 50
        \<and> dispRamp s' = \<lparr>ramp_t = 1 / 50, ramp_dispTot = 30, ramp_Ttot = 2\<rparr>
        \<and> solver_calls (events s') = [\<lparr>ramp_t = 1 / 50, ramp_dispTot = 30, ramp_Ttot = 2\<rparr>])
   \<and> (\<exists>sf. run (test_solver (1 / 25)) test_assemble = Inr (Aborted, sf)
        \<and> ii sf = 3
        \<and> solver_calls (events sf)
            = [\<lparr>ramp_t = 1 / 50, ramp_dispTot = 30, ramp_Ttot = 2\<rparr>,
               \<lparr>ramp_t = 2 / 50, ramp_dispTot = 30, ramp_Ttot = 2\<rparr>,
               \<lparr>ramp_t = 3 / 50, ramp_dispTot = 30, ramp_Ttot = 2\<rparr>]
        \<and> map ramp_value (solver_calls (events sf)) = [3 / 10, 6 / 10, 9 / 10])
   \<and> (\<exists>sf. run (test_solver 3) test_assemble = Inr (Completed, sf)
        \<and> ii sf = 100 \<and> ramp_value (dispRamp sf) = 30)"
proof -
  let ?sv = "test_solver (1 / 25)"
  let ?s = "sim_start :: nat sim"
  have f: "t_sim ?s = 0" "dispRamp ?s = dispRamp_init" "solver_calls (events ?s) = []"
    by (simp_all add: sim_start_def sim_init_def writeResults_def print_line_def
        start_banner_def)
  have d0: "0 < numSteps" by (simp add: numSteps_def)
  have sol0: "?sv (ramp_at (Suc 0)) (w_sol ?s) = Inr (3, True, Suc (w_sol ?s))"
    by (rule test_solver_returns) simp
  from body_continue_inv[where solver = ?sv and asm = test_assemble, OF sim_start_inv d0 sol0]
  obtain s1 where s1: "loop_body ?sv test_assemble ?s = Continue s1" by blast
  have ri: "dispRamp_init\<lparr>ramp_t := x\<rparr> = \<lparr>ramp_t = x, ramp_dispTot = 30, ramp_Ttot = 2\<rparr>" for x
    by (simp add: dispRamp_init_def dispTot_def stretch_def L0_def Ttot_val)
  note th = ramp_linear_and_reassigned[of 0 0 0 0 0 ?sv test_assemble ?s s1]
  note pass = th[THEN conjunct2, THEN conjunct2, THEN conjunct2, THEN conjunct2, THEN conjunct1]
  note whole = th[THEN conjunct2, THEN conjunct2, THEN conjunct2, THEN conjunct2,
      THEN conjunct2, THEN conjunct2]
  from pass s1 have q1: "t_sim s1 = t_sim ?s + dt"
      "dispRamp s1 = (dispRamp ?s)\<lparr>ramp_t := t_sim ?s + dt\<rparr>"
      "solver_calls (events s1)
          = solver_calls (events ?s) @ [(dispRamp ?s)\<lparr>ramp_t := t_sim ?s + dt\<rparr>]"
    by blast+
  have p1: "t_sim s1 = 1 / 50"
      "dispRamp s1 = \<lparr>ramp_t = 1 / 50, ramp_dispTot = 30, ramp_Ttot = 2\<rparr>"
      "solver_calls (events s1) = [\<lparr>ramp_t = 1 / 50, ramp_dispTot = 30, ramp_Ttot = 2\<rparr>]"
    unfolding q1 by (simp_all add: f dt_val ri)
  from test_run_aborts[of 2 test_assemble]
  obtain sl where sl: "run ?sv test_assemble = Inr (Aborted, end_analysis sl)"
      "aborted_at ?sv 2 sl"
    by (auto simp: numSteps_def)
  have i3: "ii (end_analysis sl) = 3"
    using aborted_summary(1)[OF sl(2)] by (simp add: end_analysis_fields)
  have up: "[1..<Suc 3] = [1, 2, 3]" by (simp add: upt_rec)
  from whole obtain ex sf where w: "run ?sv test_assemble = Inr (ex, sf)"
      "solver_calls (events sf)
          = map (\<lambda>k. dispRamp_init\<lparr>ramp_t := real k * dt\<rparr>) [1..<Suc (ii sf)]"
      "map ramp_value (solver_calls (events sf))
          = map (\<lambda>k. dispTot * (real k * dt) / Ttot) [1..<Suc (ii sf)]"
    by blast
  from w(1) sl(1) have sf: "sf = end_analysis sl" by simp
  have p2: "solver_calls (events (end_analysis sl))
            = [\<lparr>ramp_t = 1 / 50, ramp_dispTot = 30, ramp_Ttot = 2\<rparr>,
               \<lparr>ramp_t = 2 / 50, ramp_dispTot = 30, ramp_Ttot = 2\<rparr>,
               \<lparr>ramp_t = 3 / 50, ramp_dispTot = 30, ramp_Ttot = 2\<rparr>]"
      "map ramp_value (solver_calls (events (end_analysis sl))) = [3 / 10, 6 / 10, 9 / 10]"
    using w(2,3) unfolding sf i3 up
    by (simp_all add: ri dt_val dispTot_def stretch_def L0_def Ttot_val)
  from test_run_completes[of test_assemble]
  obtain sc where sc: "run (test_solver 3) test_assemble = Inr (Completed, end_analysis sc)"
    by blast
  note th3 = ramp_linear_and_reassigned[of 0 0 0 0 0 "test_solver 3" test_assemble ?s s1]
  note whole3 = th3[THEN conjunct2, THEN conjunct2, THEN conjunct2, THEN conjunct2,
      THEN conjunct2, THEN conjunct2]
  from whole3 obtain ex3 sf3 where w3: "run (test_solver 3) test_assemble = Inr (ex3, sf3)"
      "ex3 = Completed \<longrightarrow> ii sf3 = numSteps \<and> ramp_value (dispRamp sf3) = dispTot"
    by blast
  from w3(1) sc have e3: "ex3 = Completed" "sf3 = end_analysis sc" by simp_all
  from w3(2) e3 have p3: "ii (end_analysis sc) = 100" "ramp_value (dispRamp (end_analysis sc)) = 30"
    by (simp_all add: numSteps_def dispTot_def stretch_def L0_def)
  have A: "\<exists>s'. loop_body ?sv test_assemble ?s = Continue s'
        \<and> t_sim s' = 1 / 50
        \<and> dispRamp s' = \<lparr>ramp_t = 1 / 50, ramp_dispTot = 30, ramp_Ttot = 2\<rparr>
        \<and> solver_calls (events s') = [\<lparr>ramp_t = 1 / 50, ramp_dispTot = 30, ramp_Ttot = 2\<rparr>]"
    by (intro exI[of _ s1] conjI s1 p1)
  have B: "\<exists>sf. run ?sv test_assemble = Inr (Aborted, sf)
        \<and> ii sf = 3
        \<and> solver_calls (events sf)
            = [\<lparr>ramp_t = 1 / 50, ramp_dispTot = 30, ramp_Ttot = 2\<rparr>,
               \<lparr>ramp_t = 2 / 50, ramp_dispTot = 30, ramp_Ttot = 2\<rparr>,
               \<lparr>ramp_t = 3 / 50, ramp_dispTot = 30, ramp_Ttot = 2\<rparr>]
        \<and> map ramp_value (solver_calls (events sf)) = [3 / 10, 6 / 10, 9 / 10]"
    by (intro exI[of _ "end_analysis sl"] conjI sl(1) i3 p2)
  have C: "\<exists>sf. run (test_solver 3) test_assemble = Inr (Completed, sf)
        \<and> ii sf = 100 \<and> ramp_value (dispRamp sf) = 30"
    by (intro exI[of _ "end_analysis sc"] conjI sc p3)
  show ?thesis by (rule conjI[OF A conjI[OF B C]])
qed

subsection \<open>Trailing zeros of the history arrays\<close>

text \<open>
  C10.  The history arrays start as \<open>[1, 0, ..., 0]\<close> and \<open>[0, ..., 0]\<close> with \<open>numSteps + 1\<close>
  entries.  In a run aborted at step \<open>k = ii\<close> (steps \<open>1 .. k - 1\<close> converged), both keep their
  length; the entries of \<^verbatim>\<open>timeHist0\<close> below \<open>k\<close> are the recorded stretches (the last at least
  1), and every entry from index \<open>k\<close> on is 0 in both arrays, hence also every entry after
  index \<open>k\<close>.  The plot receives the whole arrays, the zeros included.
\<close>

theorem history_keeps_trailing_zeros:
  fixes sf :: "('w::zero) sim"
  assumes "run solver asm = Inr (Aborted, sf)"
  shows "timeHist0 (sim_init :: 'w sim) = 1 # replicate numSteps 0
       \<and> timeHist1 (sim_init :: 'w sim) = replicate (numSteps + 1) 0
       \<and> 1 \<le> ii sf \<and> ii sf \<le> numSteps
       \<and> length (written (events sf)) = ii sf
       \<and> length (timeHist0 sf) = numSteps + 1 \<and> length (timeHist1 sf) = numSteps + 1
       \<and> take (ii sf) (timeHist0 sf) = map stretch_at [0..<ii sf]
       \<and> 1 \<le> timeHist0 sf ! (ii sf - 1)
       \<and> drop (ii sf) (timeHist0 sf) = replicate (numSteps + 1 - ii sf) 0
       \<and> drop (ii sf) (timeHist1 sf) = replicate (numSteps + 1 - ii sf) 0
       \<and> plot_data sf = (timeHist0 sf, map (\<lambda>y. y / 1000) (timeHist1 sf))
       \<and> drop (ii sf) (snd (plot_data sf)) = replicate (numSteps + 1 - ii sf) 0"
proof -
  have "run solver asm = Inr (Aborted, sf)" by (rule assms)
  with run_post[of solver asm]
  obtain sl m where r: "sf = end_analysis sl" "aborted_at solver m sl"
    by auto
  note a = aborted_summary[OF r(2)]
  have i: "ii sf = ii sl" "timeHist0 sf = timeHist0 sl" "timeHist1 sf = timeHist1 sl"
    by (simp_all add: r(1) end_analysis_fields)
  have w: "length (written (events sf)) = ii sf"
    by (simp add: r(1) written_end_analysis end_analysis_fields a(4))
  have tk: "take (ii sf) (timeHist0 sf) = map stretch_at [0..<ii sf]"
    by (simp only: i a(7))
  have pos: "1 \<le> ii sf" by (simp add: i a(1))
  have "timeHist0 sf ! (ii sf - 1) = take (ii sf) (timeHist0 sf) ! (ii sf - 1)"
    using pos by simp
  also have "\<dots> = stretch_at (ii sf - 1)"
    unfolding tk using pos by (simp only: nth_map_upt) simp
  finally have last: "1 \<le> timeHist0 sf ! (ii sf - 1)" by (simp add: stretch_at_val)
  have d1: "drop (ii sf) (timeHist1 sf) = replicate (numSteps + 1 - ii sf) 0"
    by (simp only: i a(9))
  have p: "drop (ii sf) (snd (plot_data sf)) = replicate (numSteps + 1 - ii sf) 0"
    by (simp add: plot_data_def drop_map d1)
  have init: "timeHist0 (sim_init :: 'w sim) = 1 # replicate numSteps 0"
      "timeHist1 (sim_init :: 'w sim) = replicate (numSteps + 1) 0"
    by (simp_all add: sim_init_def totSteps_def)
  show ?thesis
    using init w tk pos last d1 p a(2,5,6,8) by (simp add: i plot_data_def)
qed

theorem history_keeps_trailing_zeros_witness:
  "\<exists>sf. run (test_solver (2 / 50)) test_assemble = Inr (Aborted, sf)
      \<and> ii sf = 3
      \<and> take 3 (timeHist0 sf) = [1, 51 / 50, 52 / 50]
      \<and> drop 3 (timeHist0 sf) = replicate 98 0
      \<and> drop 3 (timeHist1 sf) = replicate 98 0
      \<and> length (fst (plot_data sf)) = 101 \<and> length (snd (plot_data sf)) = 101"
proof -
  from test_run_aborts[of 2 test_assemble]
  obtain sl where sl: "run (test_solver (2 / 50)) test_assemble = Inr (Aborted, end_analysis sl)"
      "aborted_at (test_solver (2 / 50)) 2 sl"
    by (auto simp: numSteps_def)
  note th = history_keeps_trailing_zeros[OF sl(1)]
  have i: "ii (end_analysis sl) = 3"
    using aborted_summary(1)[OF sl(2)] by (simp add: end_analysis_fields)
  have up: "[0..<3] = [0, 1, 2]" by (simp add: upt_rec)
  from th[unfolded i] have "take 3 (timeHist0 (end_analysis sl)) = map stretch_at [0..<3]"
    by blast
  then have tk: "take 3 (timeHist0 (end_analysis sl)) = [1, 51 / 50, 52 / 50]"
    by (simp add: up stretch_at_val)
  from th have dr: "drop 3 (timeHist0 (end_analysis sl)) = replicate 98 0"
      "drop 3 (timeHist1 (end_analysis sl)) = replicate 98 0"
    by (simp_all add: i numSteps_def)
  from th have ln: "length (fst (plot_data (end_analysis sl))) = 101"
      "length (snd (plot_data (end_analysis sl))) = 101"
    by (simp_all add: numSteps_def)
  show ?thesis using sl(1) i tk dr ln by blast
qed

end
